theory Spec2Isabelle
  imports Main "HOL-Library.Sublist"
begin

section \<open>A shallow embedding of lineedit (src/lineedit/__init__.py)\<close>

text \<open>
  Python strings are modelled as \<^typ>\<open>string\<close>; a character is an 8-bit \<^typ>\<open>char\<close>, read as a
  code point below 256. Python integers are \<^typ>\<open>int\<close>, lengths are \<^typ>\<open>nat\<close>. The value
  \<open>None\<close> of an attribute that is otherwise a string or an integer is the \<open>None\<close> of an
  option type. An exception is the left injection of a sum; a computation that does not
  return is the \<open>None\<close> of the outer option of a \<^theory_text>\<open>partial_function\<close>.
\<close>

subsection \<open>Python primitives the module calls\<close>

text \<open>
  The input stream \<open>fd\<close> is the text still to be read. \<open>fd.read(1)\<close> returns the next
  character as a string of length one and consumes it; on an exhausted stream it returns the
  empty string, again and again.
\<close>

definition read1 :: "string \<Rightarrow> string \<times> string" where
  "read1 fd = (take 1 fd, drop 1 fd)"

text \<open>
  \<open>s.find(sub)\<close>: the lowest index at which \<open>sub\<close> occurs in \<open>s\<close>, \<open>-1\<close> when it does not
  occur. The empty string occurs at index 0 of every string.
\<close>

fun find_from :: "string \<Rightarrow> string \<Rightarrow> int \<Rightarrow> int" where
  "find_from s sub i =
     (if prefix sub s then i
      else (case s of [] \<Rightarrow> - 1 | _ # t \<Rightarrow> find_from t sub (i + 1)))"

definition str_find :: "string \<Rightarrow> string \<Rightarrow> int" where
  "str_find s sub = find_from s sub 0"

text \<open>The decimal numeral of a non-negative integer, as an f-string field prints it.\<close>

definition digit :: "nat \<Rightarrow> char" where
  "digit d = ''0123456789'' ! d"

fun str_of_nat :: "nat \<Rightarrow> string" where
  "str_of_nat n =
     (if n < 10 then [digit n]
      else str_of_nat (n div 10) @ [digit (n mod 10)])"

text \<open>
  The exceptions the module can raise. Line 81 executes \<open>raise\<close> on a formatted string; a
  string is not an exception object, so Python 3 raises a \<open>TypeError\<close> at that statement.
  \<open>RaiseStr\<close> stands for that exception and keeps the operand. \<open>OrdTypeError\<close> is the
  \<open>TypeError\<close> of \<open>ord\<close> applied to a string whose length is not one.
\<close>

datatype error = RaiseStr string | OrdTypeError

definition ord :: "string \<Rightarrow> error + nat" where
  "ord s = (case s of [c] \<Rightarrow> Inr (of_char c) | _ \<Rightarrow> Inl OrdTypeError)"

text \<open>
  \<open>x or y\<close> on values that are \<open>None\<close> or an integer: \<open>x\<close> when \<open>x\<close> is truthy (an integer
  other than zero), \<open>y\<close> otherwise.
\<close>

definition py_or :: "int option \<Rightarrow> int option \<Rightarrow> int option" where
  "py_or x y = (case x of None \<Rightarrow> y | Some n \<Rightarrow> if n \<noteq> 0 then x else y)"

text \<open>
  The word characters of \<open>\b\<close> in a \<open>str\<close> pattern: alphanumeric characters and the
  underscore. Below 256 the alphanumeric code points are the ASCII digits and letters and the
  Latin-1 letters and numeric signs listed here.
\<close>

definition is_word :: "char \<Rightarrow> bool" where
  "is_word c =
     (let n = (of_char c :: nat) in
        (48 \<le> n \<and> n \<le> 57) \<or> (65 \<le> n \<and> n \<le> 90) \<or> n = 95 \<or> (97 \<le> n \<and> n \<le> 122)
        \<or> n = 170 \<or> n = 178 \<or> n = 179 \<or> n = 181 \<or> n = 185 \<or> n = 186
        \<or> n = 188 \<or> n = 189 \<or> n = 190
        \<or> (192 \<le> n \<and> n \<le> 214) \<or> (216 \<le> n \<and> n \<le> 246) \<or> 248 \<le> n)"

definition word_at :: "string \<Rightarrow> nat \<Rightarrow> bool" where
  "word_at s i = (i < length s \<and> is_word (s ! i))"

text \<open>
  The start positions of \<open>list(re.finditer(r"\b", s))\<close>, in order: every position from 0 to
  \<open>len(s)\<close> at which exactly one of the two neighbouring characters is a word character
  (a missing neighbour counts as a non-word character).
\<close>

definition boundaries :: "string \<Rightarrow> nat list" where
  "boundaries s =
     filter (\<lambda>i. (0 < i \<and> word_at s (i - 1)) \<noteq> word_at s i) [0..<length s + 1]"

subsection \<open>Key codes and the sequence table\<close>

text \<open>\<open>UNKNOWN = None\<close> (line 9): the unknown command is the absent value.\<close>

definition UNKNOWN :: "int option" where "UNKNOWN = None"
definition UP :: int where "UP = 1"
definition DOWN :: int where "DOWN = 2"
definition RIGHT :: int where "RIGHT = 3"
definition LEFT :: int where "LEFT = 4"
definition HOME :: int where "HOME = 5"
definition END :: int where "END = 6"
definition INSERT :: int where "INSERT = 7"
definition DELETE :: int where "DELETE = 8"
definition PAGE_UP :: int where "PAGE_UP = 9"
definition PAGE_DOWN :: int where "PAGE_DOWN = 10"
definition CTRL_LEFT :: int where "CTRL_LEFT = 11"
definition CTRL_RIGHT :: int where "CTRL_RIGHT = 12"

definition SEQ :: "string \<rightharpoonup> int" where
  "SEQ = [
     ''A'' \<mapsto> UP,
     ''B'' \<mapsto> DOWN,
     ''C'' \<mapsto> RIGHT,
     ''D'' \<mapsto> LEFT,
     ''H'' \<mapsto> HOME,
     ''F'' \<mapsto> END,
     ''2~'' \<mapsto> INSERT,
     ''3~'' \<mapsto> DELETE,
     ''5~'' \<mapsto> PAGE_UP,
     ''6~'' \<mapsto> PAGE_DOWN,
     ''1;5C'' \<mapsto> CTRL_RIGHT,
     ''1;5D'' \<mapsto> CTRL_LEFT]"

definition ESC :: string where
  "ESC = [CHR 0x1B]"

definition ESC_SAVE_CURSOR :: string where
  "ESC_SAVE_CURSOR = CHR 0x1B # ''[s''"

definition ESC_RESTORE_CURSOR :: string where
  "ESC_RESTORE_CURSOR = CHR 0x1B # ''[u''"

definition CS_PARAMETER :: string where
  "CS_PARAMETER = ''0123456789:;<=>?''"

text \<open>The double quote is \<open>0x22\<close>, the apostrophe \<open>0x27\<close>.\<close>

definition CS_INTERMEDIATE :: string where
  "CS_INTERMEDIATE = CHR 0x22 # ''#$%&'' @ CHR 0x27 # ''()*+,-./''"

text \<open>
  In the source literal \<open>\]\<close> is no escape sequence, so the string holds the backslash
  (\<open>0x5C\<close>) and the bracket: all of \<open>0x40\<close> to \<open>0x7E\<close>.
\<close>

definition CS_FINAL :: string where
  "CS_FINAL = ''@ABCDEFGHIJKLMNOPQRSTUVWXYZ['' @ CHR 0x5C # '']^_`abcdefghijklmnopqrstuvwxyz{|}~''"

subsection \<open>The key decoder\<close>

text \<open>
  The two \<open>while\<close> loops of \<open>esc2str\<close>. Each takes the accumulator, the character read
  last and the stream, and returns them when the loop is left.
\<close>

partial_function (option) param_run ::
  "string \<Rightarrow> string \<Rightarrow> string \<Rightarrow> (string \<times> string \<times> string) option" where
  "param_run buf next fd =
     (if str_find CS_PARAMETER next \<ge> 0
      then param_run (buf @ next) (fst (read1 fd)) (snd (read1 fd))
      else Some (buf, next, fd))"

partial_function (option) inter_run ::
  "string \<Rightarrow> string \<Rightarrow> string \<Rightarrow> (string \<times> string \<times> string) option" where
  "inter_run buf next fd =
     (if str_find CS_INTERMEDIATE next \<ge> 0
      then inter_run (buf @ next) (fst (read1 fd)) (snd (read1 fd))
      else Some (buf, next, fd))"

declare param_run.simps [code]
declare inter_run.simps [code]

text \<open>
  \<open>esc2str\<close> returns \<open>None\<close> (here \<open>Inr (None, _)\<close>) when the character after ESC is not
  \<open>[\<close>, the sequence body when a final character is reached, and executes the \<open>raise\<close>
  otherwise. The stream that remains is returned with the result.
\<close>

definition esc2str :: "string \<Rightarrow> (error + string option \<times> string) option" where
  "esc2str fd =
     (case read1 fd of (next, fd1) \<Rightarrow>
        if next \<noteq> ''['' then Some (Inr (None, fd1))
        else (case read1 fd1 of (next, fd2) \<Rightarrow>
          (case param_run [] next fd2 of
             None \<Rightarrow> None
           | Some (buf, next, fd3) \<Rightarrow>
               (case inter_run buf next fd3 of
                  None \<Rightarrow> None
                | Some (buf, next, fd4) \<Rightarrow>
                    if str_find CS_FINAL next \<ge> 0 then Some (Inr (Some (buf @ next), fd4))
                    else Some (Inl (RaiseStr
                           (''Malformed ESC Sequence '' @ CHR 0x27 # buf @ [CHR 0x27])))))))"

definition parse_esc :: "string \<Rightarrow> (error + int option \<times> string) option" where
  "parse_esc fd =
     (case esc2str fd of
        None \<Rightarrow> None
      | Some (Inl e) \<Rightarrow> Some (Inl e)
      | Some (Inr (seq, fd')) \<Rightarrow>
          Some (Inr (py_or (case seq of None \<Rightarrow> None | Some s \<Rightarrow> SEQ s) UNKNOWN, fd')))"

record Key =
  char :: "string option"
  cmd :: "int option"

text \<open>The constructor of \<open>Key\<close>, with the stream that remains.\<close>

definition Key_init :: "string \<Rightarrow> (error + Key \<times> string) option" where
  "Key_init fd =
     (case read1 fd of (key, fd1) \<Rightarrow>
        if key \<noteq> ESC then Some (Inr (\<lparr>char = Some key, cmd = None\<rparr>, fd1))
        else (case parse_esc fd1 of
                None \<Rightarrow> None
              | Some (Inl e) \<Rightarrow> Some (Inl e)
              | Some (Inr (c, fd2)) \<Rightarrow> Some (Inr (\<lparr>char = None, cmd = c\<rparr>, fd2))))"

definition read :: "string \<Rightarrow> (error + Key \<times> string) option" where
  "read fd = Key_init fd"

subsection \<open>The editor\<close>

text \<open>
  The attributes of an \<open>Editor\<close> object. \<open>out\<close> is not an attribute of the class: it is the
  text written to standard output so far, which \<open>emit\<close> extends. The two dispatch tables
  are never assigned after \<open>__init__\<close> and are constants of the model.
\<close>

record Editor =
  fd :: string
  maxlen :: int
  pre :: string
  post :: string
  running :: bool
  out :: string

definition emit :: "string \<Rightarrow> Editor \<Rightarrow> Editor" where
  "emit text self = self\<lparr>out := out self @ text\<rparr>"

text \<open>
  \<open>__init__\<close>: \<open>max or columns - 1\<close>, where \<open>columns\<close> is what
  \<open>shutil.get_terminal_size()\<close> reports. \<open>pre\<close>, \<open>post\<close> and \<open>running\<close> do not exist before
  \<open>edit\<close> assigns them; the model starts them empty and false.
\<close>

definition Editor_init :: "string \<Rightarrow> int option \<Rightarrow> int \<Rightarrow> Editor" where
  "Editor_init fd' max' columns =
     \<lparr>fd = fd',
      maxlen = (case max' of None \<Rightarrow> columns - 1
                | Some m \<Rightarrow> if m \<noteq> 0 then m else columns - 1),
      pre = [], post = [], running = False, out = []\<rparr>"

definition show' :: "nat \<Rightarrow> Editor \<Rightarrow> Editor" where
  "show' erase self =
     (let self = emit ESC_RESTORE_CURSOR self;
          self = emit (pre self) self;
          self = emit (post self) self;
          self = emit (replicate erase CHR '' '') self;
          back = length (post self) + erase
      in if back > 0 then emit (ESC @ ''['' @ str_of_nat back @ ''D'') self else self)"

definition handle_char :: "string \<Rightarrow> Editor \<Rightarrow> Editor" where
  "handle_char c self =
     (if maxlen self < 0 \<or> int (length (pre self @ post self)) < maxlen self
      then show' 0 (self\<lparr>pre := pre self @ c\<rparr>)
      else self)"

definition left :: "Editor \<Rightarrow> Editor" where
  "left self =
     (if pre self = [] then self
      else self\<lparr>post := [last (pre self)] @ post self, pre := butlast (pre self)\<rparr>)"

definition right :: "Editor \<Rightarrow> Editor" where
  "right self =
     (if post self = [] then self
      else self\<lparr>pre := pre self @ [hd (post self)], post := tl (post self)\<rparr>)"

definition home :: "Editor \<Rightarrow> Editor" where
  "home self = self\<lparr>post := pre self @ post self, pre := []\<rparr>"

definition end' :: "Editor \<Rightarrow> Editor" where
  "end' self = self\<lparr>pre := pre self @ post self, post := []\<rparr>"

definition delete :: "Editor \<Rightarrow> Editor" where
  "delete self =
     show' 1 (if length (post self) > 0 then self\<lparr>post := tl (post self)\<rparr> else self)"

text \<open>\<open>boundaries[-2].start()\<close>, read only when the list has more than one element.\<close>

definition second_last :: "nat list \<Rightarrow> nat" where
  "second_last bs = bs ! (length bs - 2)"

definition delete_word :: "Editor \<Rightarrow> Editor" where
  "delete_word self =
     (let bs = boundaries (pre self) in
      if length bs > 1
      then (let kill = length (pre self) - second_last bs
            in show' kill (self\<lparr>pre := take (second_last bs) (pre self)\<rparr>))
      else self)"

definition word_left :: "Editor \<Rightarrow> Editor" where
  "word_left self =
     (let bs = boundaries (pre self) in
      if length bs > 1
      then show' 0 (self\<lparr>post := drop (second_last bs) (pre self) @ post self,
                          pre := take (second_last bs) (pre self)\<rparr>)
      else self)"

definition word_right :: "Editor \<Rightarrow> Editor" where
  "word_right self =
     (let bs = boundaries (post self) in
      if length bs > 1
      then show' 0 (self\<lparr>pre := pre self @ take (bs ! 1) (post self),
                          post := drop (bs ! 1) (post self)\<rparr>)
      else self)"

definition up :: "Editor \<Rightarrow> Editor" where
  "up self = self"

definition down :: "Editor \<Rightarrow> Editor" where
  "down self = self"

definition tab :: "Editor \<Rightarrow> Editor" where
  "tab self = self"

definition enter :: "Editor \<Rightarrow> Editor" where
  "enter self = self\<lparr>running := False\<rparr>"

definition backspace :: "Editor \<Rightarrow> Editor" where
  "backspace self =
     show' 1 (if length (pre self) > 0 then self\<lparr>pre := butlast (pre self)\<rparr> else self)"

definition kill_post :: "Editor \<Rightarrow> Editor" where
  "kill_post self = (let l = length (post self) in show' l (self\<lparr>post := []\<rparr>))"

definition key_cmds :: "string \<rightharpoonup> (Editor \<Rightarrow> Editor)" where
  "key_cmds = [
     [CHR 0x0A] \<mapsto> enter,
     [CHR 0x09] \<mapsto> tab,
     [CHR 0x7F] \<mapsto> backspace,
     [CHR 0x08] \<mapsto> backspace,
     [CHR 0x0B] \<mapsto> kill_post,
     [CHR 0x17] \<mapsto> delete_word]"

definition esc_cmds :: "int \<rightharpoonup> (Editor \<Rightarrow> Editor)" where
  "esc_cmds = [
     LEFT \<mapsto> left,
     RIGHT \<mapsto> right,
     HOME \<mapsto> home,
     END \<mapsto> end',
     DELETE \<mapsto> delete,
     CTRL_LEFT \<mapsto> word_left,
     CTRL_RIGHT \<mapsto> word_right]"

text \<open>
  One pass through the body of the \<open>while\<close> loop of \<open>edit\<close> for a key already read: the
  dispatch on \<open>key.char\<close> and \<open>key.cmd\<close>.
\<close>

definition dispatch :: "Key \<Rightarrow> Editor \<Rightarrow> error + Editor" where
  "dispatch key self =
     (case char key of
        Some c \<Rightarrow>
          (case key_cmds c of
             Some cmdfunc \<Rightarrow> Inr (cmdfunc self)
           | None \<Rightarrow>
               (case ord c of
                  Inl e \<Rightarrow> Inl e
                | Inr n \<Rightarrow> if n \<ge> 32 then Inr (handle_char c self) else Inr self))
      | None \<Rightarrow>
          (case cmd key of
             Some k \<Rightarrow>
               (case esc_cmds k of
                  Some cmdfunc \<Rightarrow> Inr (show' 0 (cmdfunc self))
                | None \<Rightarrow> Inr self)
           | None \<Rightarrow> Inr self))"

text \<open>The \<open>while self.running\<close> loop of \<open>edit\<close>.\<close>

partial_function (option) edit_loop :: "Editor \<Rightarrow> (error + Editor) option" where
  "edit_loop self =
     (if running self
      then (case read (fd self) of
              None \<Rightarrow> None
            | Some (Inl e) \<Rightarrow> Some (Inl e)
            | Some (Inr (key, fd')) \<Rightarrow>
                (case dispatch key (self\<lparr>fd := fd'\<rparr>) of
                   Inl e \<Rightarrow> Some (Inl e)
                 | Inr self' \<Rightarrow> edit_loop self'))
      else Some (Inr self))"

declare edit_loop.simps [code]

text \<open>The statements of \<open>edit\<close> before the loop.\<close>

definition edit_begin :: "Editor \<Rightarrow> string \<Rightarrow> string \<Rightarrow> Editor" where
  "edit_begin self text post' =
     (let self = self\<lparr>pre := text, post := post'\<rparr>;
          self = emit ESC_SAVE_CURSOR self;
          self = show' 0 self
      in self\<lparr>running := True\<rparr>)"

text \<open>\<open>edit\<close> returns \<open>self.pre + self.post\<close> of the object the loop leaves.\<close>

definition edit :: "Editor \<Rightarrow> string \<Rightarrow> string \<Rightarrow> (error + string) option" where
  "edit self text post' =
     (case edit_loop (edit_begin self text post') of
        None \<Rightarrow> None
      | Some (Inl e) \<Rightarrow> Some (Inl e)
      | Some (Inr self') \<Rightarrow> Some (Inr (pre self' @ post self')))"

section \<open>Properties\<close>

lemmas code_defs =
  UP_def DOWN_def RIGHT_def LEFT_def HOME_def END_def INSERT_def DELETE_def
  PAGE_UP_def PAGE_DOWN_def CTRL_LEFT_def CTRL_RIGHT_def

subsection \<open>Auxiliary facts about the primitives and the two runs\<close>

lemma find_from_bounds: "0 \<le> i \<Longrightarrow> find_from s sub i = - 1 \<or> i \<le> find_from s sub i"
proof (induction s arbitrary: i)
  case Nil
  then show ?case by simp
next
  case (Cons a s)
  from Cons.prems Cons.IH [of "i + 1"] show ?case by auto
qed

lemma find_from_char: "0 \<le> i \<Longrightarrow> (0 \<le> find_from s [c] i) = (c \<in> set s)"
proof (induction s arbitrary: i)
  case Nil
  then show ?case by simp
next
  case (Cons a s)
  from Cons.prems Cons.IH [of "i + 1"] show ?case by auto
qed

lemma str_find_char: "(0 \<le> str_find s [c]) = (c \<in> set s)"
  by (simp add: str_find_def find_from_char del: find_from.simps)

lemma str_find_empty: "str_find s [] = 0"
  by (simp add: str_find_def)

lemma read1_Cons: "read1 (c # cs) = ([c], cs)"
  by (simp add: read1_def)

lemma read1_Nil: "read1 [] = ([], [])"
  by (simp add: read1_def)

lemma param_run_step:
  "c \<in> set CS_PARAMETER \<Longrightarrow>
   param_run buf [c] inp = param_run (buf @ [c]) (fst (read1 inp)) (snd (read1 inp))"
  by (subst param_run.simps) (simp add: str_find_char)

lemma param_run_stop:
  "c \<notin> set CS_PARAMETER \<Longrightarrow> param_run buf [c] inp = Some (buf, [c], inp)"
  by (subst param_run.simps) (simp add: str_find_char)

lemma param_run_consume:
  "set ps \<subseteq> set CS_PARAMETER \<Longrightarrow> x \<notin> set CS_PARAMETER \<Longrightarrow>
   param_run buf (fst (read1 (ps @ x # rest))) (snd (read1 (ps @ x # rest)))
     = Some (buf @ ps, [x], rest)"
proof (induction ps arbitrary: buf)
  case Nil
  then show ?case by (simp add: read1_Cons param_run_stop)
next
  case (Cons p ps)
  then show ?case by (simp add: read1_Cons param_run_step)
qed

lemma param_run_Some_nonempty:
  assumes "param_run b nx inp = Some r"
  shows "inp \<noteq> [] \<or> nx \<noteq> []"
proof (rule param_run.raw_induct [where P = "\<lambda>b nx inp r. inp \<noteq> [] \<or> nx \<noteq> []", OF _ assms])
  fix f b nx inp r
  assume IH: "\<And>b nx inp r. f b nx inp = Some r \<Longrightarrow> inp \<noteq> [] \<or> nx \<noteq> []"
    and step: "(if 0 \<le> str_find CS_PARAMETER nx
                then f (b @ nx) (fst (read1 inp)) (snd (read1 inp))
                else Some (b, nx, inp)) = Some r"
  show "inp \<noteq> [] \<or> nx \<noteq> []"
  proof (rule ccontr)
    assume "\<not> (inp \<noteq> [] \<or> nx \<noteq> [])"
    then have e: "inp = []" "nx = []" by auto
    with step have "f b [] [] = Some r"
      by (simp add: str_find_empty read1_Nil)
    from IH [OF this] show False by simp
  qed
qed

lemma param_run_eof: "param_run buf [] [] = None"
proof (cases "param_run buf [] []")
  case None
  then show ?thesis .
next
  case (Some r)
  from param_run_Some_nonempty [OF this] show ?thesis by simp
qed

lemma final_not_parameter: "c \<in> set CS_FINAL \<Longrightarrow> c \<notin> set CS_PARAMETER"
  by (auto simp: CS_FINAL_def CS_PARAMETER_def)
lemma final_not_intermediate: "c \<in> set CS_FINAL \<Longrightarrow> c \<notin> set CS_INTERMEDIATE"
  by (auto simp: CS_FINAL_def CS_INTERMEDIATE_def)
lemma intermediate_not_parameter: "c \<in> set CS_INTERMEDIATE \<Longrightarrow> c \<notin> set CS_PARAMETER"
  by (auto simp: CS_INTERMEDIATE_def CS_PARAMETER_def)


lemma inter_run_step:
  "c \<in> set CS_INTERMEDIATE \<Longrightarrow>
   inter_run buf [c] inp = inter_run (buf @ [c]) (fst (read1 inp)) (snd (read1 inp))"
  by (subst inter_run.simps) (simp add: str_find_char)

lemma inter_run_stop:
  "c \<notin> set CS_INTERMEDIATE \<Longrightarrow> inter_run buf [c] inp = Some (buf, [c], inp)"
  by (subst inter_run.simps) (simp add: str_find_char)

lemma inter_run_consume:
  "set qs \<subseteq> set CS_INTERMEDIATE \<Longrightarrow> x \<notin> set CS_INTERMEDIATE \<Longrightarrow>
   inter_run buf (fst (read1 (qs @ x # rest))) (snd (read1 (qs @ x # rest)))
     = Some (buf @ qs, [x], rest)"
proof (induction qs arbitrary: buf)
  case Nil
  then show ?case by (simp add: read1_Cons inter_run_stop)
next
  case (Cons q qs)
  then show ?case by (simp add: read1_Cons inter_run_step)
qed

text \<open>The two runs on a body: parameters \<open>ps\<close>, intermediates \<open>qs\<close>, then \<open>x\<close>.\<close>

lemma csi_runs:
  assumes ps: "set ps \<subseteq> set CS_PARAMETER"
    and qs: "set qs \<subseteq> set CS_INTERMEDIATE"
    and x: "x \<notin> set CS_INTERMEDIATE"
    and xp: "qs = [] \<longrightarrow> x \<notin> set CS_PARAMETER"
  shows "\<exists>b n r. param_run [] (fst (read1 (ps @ qs @ x # rest)))
                      (snd (read1 (ps @ qs @ x # rest))) = Some (b, n, r)
               \<and> inter_run b n r = Some (ps @ qs, [x], rest)"
proof (cases qs)
  case Nil
  with xp have "x \<notin> set CS_PARAMETER" by simp
  from param_run_consume [OF ps this, of "[]" rest] Nil x show ?thesis
    by (simp add: inter_run_stop)
next
  case (Cons q qs')
  with qs have q: "q \<in> set CS_INTERMEDIATE" and qs': "set qs' \<subseteq> set CS_INTERMEDIATE"
    by auto
  from q have "q \<notin> set CS_PARAMETER" by (rule intermediate_not_parameter)
  from param_run_consume [OF ps this, of "[]" "qs' @ x # rest"]
  have "param_run [] (fst (read1 (ps @ qs @ x # rest))) (snd (read1 (ps @ qs @ x # rest)))
          = Some (ps, [q], qs' @ x # rest)"
    by (simp add: Cons)
  moreover from inter_run_consume [OF qs' x, of "ps @ [q]" rest]
  have "inter_run ps [q] (qs' @ x # rest) = Some (ps @ qs, [x], rest)"
    by (simp add: Cons inter_run_step [OF q])
  ultimately show ?thesis by blast
qed

lemma esc2str_not_csi:
  "c \<noteq> CHR ''['' \<Longrightarrow> esc2str (c # rest) = Some (Inr (None, rest))"
  by (simp add: esc2str_def read1_Cons)

lemma esc2str_body:
  assumes "set ps \<subseteq> set CS_PARAMETER" "set qs \<subseteq> set CS_INTERMEDIATE"
    "x \<notin> set CS_INTERMEDIATE" "qs = [] \<longrightarrow> x \<notin> set CS_PARAMETER"
  shows "esc2str (CHR ''['' # ps @ qs @ x # rest) =
           (if x \<in> set CS_FINAL then Some (Inr (Some (ps @ qs @ [x]), rest))
            else Some (Inl (RaiseStr
                   (''Malformed ESC Sequence '' @ CHR 0x27 # (ps @ qs) @ [CHR 0x27]))))"
proof -
  from csi_runs [OF assms, of rest] obtain b n r where
    "param_run [] (fst (read1 (ps @ qs @ x # rest)))
        (snd (read1 (ps @ qs @ x # rest))) = Some (b, n, r)"
    "inter_run b n r = Some (ps @ qs, [x], rest)" by blast
  then show ?thesis
    by (simp add: esc2str_def read1_Cons split_beta str_find_char)
qed

lemma Key_init_ESC:
  "Key_init (CHR 0x1B # inp) =
     (case parse_esc inp of
        None \<Rightarrow> None
      | Some (Inl e) \<Rightarrow> Some (Inl e)
      | Some (Inr (c, fd2)) \<Rightarrow> Some (Inr (\<lparr>char = None, cmd = c\<rparr>, fd2)))"
  by (simp add: Key_init_def read1_Cons ESC_def)

lemma Key_init_literal:
  "c \<noteq> CHR 0x1B \<Longrightarrow> Key_init (c # rest) = Some (Inr (\<lparr>char = Some [c], cmd = None\<rparr>, rest))"
  by (simp add: Key_init_def read1_Cons ESC_def)

lemma SEQ_codes: "SEQ s = Some n \<Longrightarrow> 1 \<le> n \<and> n \<le> 12"
  by (auto simp: SEQ_def code_defs split: if_splits)

lemma py_or_SEQ: "py_or (SEQ s) UNKNOWN = SEQ s"
  using SEQ_codes [of s] by (cases "SEQ s") (auto simp: py_or_def UNKNOWN_def)

subsection \<open>Auxiliary facts about the decoder\<close>

lemma parse_esc_not_csi:
  "c \<noteq> CHR ''['' \<Longrightarrow> parse_esc (c # rest) = Some (Inr (UNKNOWN, rest))"
  by (simp add: parse_esc_def esc2str_not_csi py_or_def UNKNOWN_def)

lemma parse_esc_body:
  assumes "set ps \<subseteq> set CS_PARAMETER" "set qs \<subseteq> set CS_INTERMEDIATE" "x \<in> set CS_FINAL"
  shows "parse_esc (CHR ''['' # ps @ qs @ x # rest) = Some (Inr (SEQ (ps @ qs @ [x]), rest))"
proof -
  from assms(3) have "x \<notin> set CS_INTERMEDIATE" "qs = [] \<longrightarrow> x \<notin> set CS_PARAMETER"
    by (simp_all add: final_not_intermediate final_not_parameter)
  from esc2str_body [OF assms(1,2) this, of rest] assms(3) show ?thesis
    by (simp add: parse_esc_def py_or_SEQ)
qed

lemma param_run_truncated:
  "set ps \<subseteq> set CS_PARAMETER \<Longrightarrow>
   param_run buf (fst (read1 ps)) (snd (read1 ps)) = None"
proof (induction ps arbitrary: buf)
  case Nil
  then show ?case by (simp add: read1_Nil param_run_eof)
next
  case (Cons p ps)
  then show ?case by (simp add: read1_Cons param_run_step)
qed

subsection \<open>The key decoder: claims C1, C2, C4 and C10\<close>

text \<open>
  C1, as the code has it. When the character after ESC is not \<open>[\<close>, \<open>esc2str\<close> returns
  \<open>None\<close> and \<open>read\<close> returns a key with no character and the command \<open>UNKNOWN\<close>; no
  exception is raised. When the character that follows the parameter run and the
  intermediate run of a CSI sequence is neither an intermediate nor a final character, the
  \<open>raise\<close> statement of \<open>esc2str\<close> is executed and \<open>read\<close> ends with that exception, which
  carries the body read so far. An exception of \<open>read\<close> ends the loop of \<open>edit\<close> with the
  same exception.
\<close>

theorem malformed_escape:
  "(c \<noteq> CHR ''['' \<longrightarrow>
      read (ESC @ c # rest) = Some (Inr (\<lparr>char = None, cmd = UNKNOWN\<rparr>, rest)))
   \<and> (set ps \<subseteq> set CS_PARAMETER \<and> set qs \<subseteq> set CS_INTERMEDIATE
        \<and> x \<notin> set CS_INTERMEDIATE \<and> x \<notin> set CS_FINAL \<and> (qs = [] \<longrightarrow> x \<notin> set CS_PARAMETER) \<longrightarrow>
      read (ESC @ CHR ''['' # ps @ qs @ x # rest) =
        Some (Inl (RaiseStr (''Malformed ESC Sequence '' @ CHR 0x27 # (ps @ qs) @ [CHR 0x27]))))
   \<and> (running self \<and> read (fd self) = Some (Inl e) \<longrightarrow> edit_loop self = Some (Inl e))"
proof (intro conjI impI)
  assume "running self \<and> read (fd self) = Some (Inl e)"
  then show "edit_loop self = Some (Inl e)"
    by (subst edit_loop.simps) simp
next
  assume "c \<noteq> CHR ''[''"
  then show "read (ESC @ c # rest) = Some (Inr (\<lparr>char = None, cmd = UNKNOWN\<rparr>, rest))"
    by (simp add: read_def ESC_def Key_init_ESC parse_esc_not_csi)
next
  assume a: "set ps \<subseteq> set CS_PARAMETER \<and> set qs \<subseteq> set CS_INTERMEDIATE
        \<and> x \<notin> set CS_INTERMEDIATE \<and> x \<notin> set CS_FINAL \<and> (qs = [] \<longrightarrow> x \<notin> set CS_PARAMETER)"
  then have "esc2str (CHR ''['' # ps @ qs @ x # rest) =
      Some (Inl (RaiseStr (''Malformed ESC Sequence '' @ CHR 0x27 # (ps @ qs) @ [CHR 0x27])))"
    by (simp add: esc2str_body)
  then show "read (ESC @ CHR ''['' # ps @ qs @ x # rest) =
        Some (Inl (RaiseStr (''Malformed ESC Sequence '' @ CHR 0x27 # (ps @ qs) @ [CHR 0x27])))"
    by (simp add: read_def ESC_def Key_init_ESC parse_esc_def)
qed

text \<open>
  C1 at concrete inputs: ESC \<open>O\<close> \<open>P\<close>; ESC \<open>[\<close> \<open>1;5\<close> followed by a space; ESC \<open>[\<close> \<open>3#\<close>
  followed by \<open>4\<close>, read directly and read by the loop of \<open>edit\<close>.
\<close>

theorem malformed_escape_witness:
  "read (CHR 0x1B # ''OP'') = Some (Inr (\<lparr>char = None, cmd = None\<rparr>, ''P''))
   \<and> read (CHR 0x1B # ''[1;5 x'') = Some (Inl (RaiseStr (''Malformed ESC Sequence '' @ CHR 0x27 # ''1;5'' @ [CHR 0x27])))
   \<and> read (CHR 0x1B # ''[3#4'') = Some (Inl (RaiseStr (''Malformed ESC Sequence '' @ CHR 0x27 # ''3#'' @ [CHR 0x27])))
   \<and> edit_loop \<lparr>fd = CHR 0x1B # ''[3#4'', maxlen = 10, pre = ''ab'', post = [], running = True, out = []\<rparr>
       = Some (Inl (RaiseStr (''Malformed ESC Sequence '' @ CHR 0x27 # ''3#'' @ [CHR 0x27])))"
  using malformed_escape [where c = "CHR ''O''" and rest = "''P''" and ps = "[]" and qs = "[]" and x = "CHR '' ''"]
    malformed_escape [where c = "CHR ''O''" and rest = "''x''" and ps = "''1;5''" and qs = "[]" and x = "CHR '' ''"]
    malformed_escape [where c = "CHR ''O''" and rest = "[]" and ps = "''3''" and qs = "''#''" and x = "CHR ''4''"
      and self = "\<lparr>fd = CHR 0x1B # ''[3#4'', maxlen = 10, pre = ''ab'', post = [], running = True, out = []\<rparr>"
      and e = "RaiseStr (''Malformed ESC Sequence '' @ CHR 0x27 # ''3#'' @ [CHR 0x27])"]
  by (simp add: ESC_def UNKNOWN_def CS_PARAMETER_def CS_INTERMEDIATE_def CS_FINAL_def)

text \<open>
  C1 as stated fails: on ESC followed by \<open>O\<close> the read returns a key, with the command
  \<open>UNKNOWN\<close>, and raises nothing.
\<close>

theorem escape_without_csi_counterexample:
  "read [CHR 0x1B, CHR ''O''] = Some (Inr (\<lparr>char = None, cmd = UNKNOWN\<rparr>, []))"
  by (simp add: read_def Key_init_ESC parse_esc_not_csi)

text \<open>
  C2, as the code has it. For every stream on which \<open>read\<close> returns a key: when the first
  character read is not ESC, the character field holds what was read and the command field
  is absent; when it is ESC, the character field is absent and the command field is
  \<open>UNKNOWN\<close> or one of the twelve codes \<open>UP\<close> to \<open>CTRL_RIGHT\<close>; the two fields are never both
  present. Since \<open>UNKNOWN\<close> is \<open>None\<close>, both fields are absent when the command is
  \<open>UNKNOWN\<close>.
\<close>

theorem key_alternatives:
  assumes "read inp = Some (Inr (k, inp'))"
  shows "(take 1 inp \<noteq> ESC \<longrightarrow> k = \<lparr>char = Some (take 1 inp), cmd = None\<rparr> \<and> inp' = drop 1 inp)
       \<and> (take 1 inp = ESC \<longrightarrow> char k = None \<and>
            (cmd k = UNKNOWN \<or>
             cmd k \<in> Some ` {UP, DOWN, RIGHT, LEFT, HOME, END, INSERT, DELETE,
                              PAGE_UP, PAGE_DOWN, CTRL_LEFT, CTRL_RIGHT}))
       \<and> \<not> (char k \<noteq> None \<and> cmd k \<noteq> None)"
proof -
  have seq: "SEQ s = None \<or> SEQ s \<in> Some ` {UP, DOWN, RIGHT, LEFT, HOME, END, INSERT, DELETE,
                              PAGE_UP, PAGE_DOWN, CTRL_LEFT, CTRL_RIGHT}" for s
    by (auto simp: SEQ_def)
  have or: "py_or (case sq of None \<Rightarrow> None | Some s \<Rightarrow> SEQ s) UNKNOWN = UNKNOWN
     \<or> py_or (case sq of None \<Rightarrow> None | Some s \<Rightarrow> SEQ s) UNKNOWN
         \<in> Some ` {UP, DOWN, RIGHT, LEFT, HOME, END, INSERT, DELETE,
                              PAGE_UP, PAGE_DOWN, CTRL_LEFT, CTRL_RIGHT}" for sq
  proof (cases sq)
    case None
    then show ?thesis by (simp add: py_or_def UNKNOWN_def)
  next
    case (Some s)
    have "py_or (case sq of None \<Rightarrow> None | Some s \<Rightarrow> SEQ s) UNKNOWN = SEQ s"
      by (simp add: Some py_or_SEQ)
    with seq [of s] show ?thesis by (auto simp: UNKNOWN_def)
  qed
  show ?thesis
  proof (cases "take 1 inp = ESC")
    case False
    with assms show ?thesis
      by (auto simp: read_def Key_init_def read1_def)
  next
    case True
    with assms obtain sq where "k = \<lparr>char = None, cmd = py_or (case sq of None \<Rightarrow> None | Some s \<Rightarrow> SEQ s) UNKNOWN\<rparr>"
      by (auto simp: read_def Key_init_def read1_def parse_esc_def split: option.splits sum.splits)
    with or [of sq] True show ?thesis by auto
  qed
qed

text \<open>C2 at the concrete input ESC \<open>[3~\<close>.\<close>

theorem key_alternatives_witness:
  "read (CHR 0x1B # ''[3~'') = Some (Inr (\<lparr>char = None, cmd = Some DELETE\<rparr>, []))
   \<and> char \<lparr>char = None, cmd = Some DELETE\<rparr> = None
   \<and> cmd \<lparr>char = None, cmd = Some DELETE\<rparr> \<in> Some ` {UP, DOWN, RIGHT, LEFT, HOME, END, INSERT, DELETE,
                              PAGE_UP, PAGE_DOWN, CTRL_LEFT, CTRL_RIGHT}"
proof -
  have r: "read (CHR 0x1B # ''[3~'') = Some (Inr (\<lparr>char = None, cmd = Some DELETE\<rparr>, []))"
    by (simp add: read_def Key_init_def read1_def ESC_def parse_esc_def esc2str_def
        param_run.simps inter_run.simps str_find_def CS_PARAMETER_def CS_INTERMEDIATE_def
        CS_FINAL_def SEQ_def py_or_def code_defs UNKNOWN_def)
  from key_alternatives [OF r] r show ?thesis
    by (simp add: ESC_def UNKNOWN_def)
qed

text \<open>
  C2 as stated fails: on the well-formed, unrecognised sequence ESC \<open>[Z\<close> the key returned
  has both fields absent.
\<close>

theorem unknown_key_counterexample:
  "read [CHR 0x1B, CHR ''['', CHR ''Z''] = Some (Inr (\<lparr>char = None, cmd = None\<rparr>, []))
   \<and> UNKNOWN = None"
  by (simp add: read_def Key_init_def read1_def ESC_def parse_esc_def esc2str_def
        param_run.simps inter_run.simps str_find_def CS_PARAMETER_def CS_INTERMEDIATE_def
        CS_FINAL_def SEQ_def py_or_def code_defs UNKNOWN_def)

text \<open>
  C4. ESC \<open>[A\<close> decodes to \<open>UP\<close>, ESC \<open>[3~\<close> to \<open>DELETE\<close>, ESC \<open>[1;5C\<close> to \<open>CTRL_RIGHT\<close>; a
  single character other than ESC, such as \<open>a\<close>, decodes to the key holding that character;
  and every sequence ESC \<open>[\<close>, parameter characters, intermediate characters, one final
  character whose body is not a key of \<open>SEQ\<close> decodes to \<open>UNKNOWN\<close>, with no exception.
\<close>

theorem decode_examples:
  "read (ESC @ ''[A'' @ rest) = Some (Inr (\<lparr>char = None, cmd = Some UP\<rparr>, rest))
   \<and> read (ESC @ ''[3~'' @ rest) = Some (Inr (\<lparr>char = None, cmd = Some DELETE\<rparr>, rest))
   \<and> read (ESC @ ''[1;5C'' @ rest) = Some (Inr (\<lparr>char = None, cmd = Some CTRL_RIGHT\<rparr>, rest))
   \<and> read (''a'' @ rest) = Some (Inr (\<lparr>char = Some ''a'', cmd = None\<rparr>, rest))
   \<and> ([c] \<noteq> ESC \<longrightarrow> read (c # rest) = Some (Inr (\<lparr>char = Some [c], cmd = None\<rparr>, rest)))
   \<and> (set ps \<subseteq> set CS_PARAMETER \<and> set qs \<subseteq> set CS_INTERMEDIATE \<and> x \<in> set CS_FINAL
        \<and> ps @ qs @ [x] \<notin> dom SEQ \<longrightarrow>
      read (ESC @ CHR ''['' # ps @ qs @ x # rest) = Some (Inr (\<lparr>char = None, cmd = UNKNOWN\<rparr>, rest)))"
proof (intro conjI impI)
  show "read (ESC @ ''[A'' @ rest) = Some (Inr (\<lparr>char = None, cmd = Some UP\<rparr>, rest))"
    using parse_esc_body [of "[]" "[]" "CHR ''A''" rest]
    by (simp add: read_def ESC_def Key_init_ESC CS_FINAL_def SEQ_def)
  show "read (ESC @ ''[3~'' @ rest) = Some (Inr (\<lparr>char = None, cmd = Some DELETE\<rparr>, rest))"
    using parse_esc_body [of "''3''" "[]" "CHR ''~''" rest]
    by (simp add: read_def ESC_def Key_init_ESC CS_FINAL_def CS_PARAMETER_def SEQ_def)
  show "read (ESC @ ''[1;5C'' @ rest) = Some (Inr (\<lparr>char = None, cmd = Some CTRL_RIGHT\<rparr>, rest))"
    using parse_esc_body [of "''1;5''" "[]" "CHR ''C''" rest]
    by (simp add: read_def ESC_def Key_init_ESC CS_FINAL_def CS_PARAMETER_def SEQ_def)
  show "read (''a'' @ rest) = Some (Inr (\<lparr>char = Some ''a'', cmd = None\<rparr>, rest))"
    by (simp add: read_def Key_init_literal)
next
  assume "[c] \<noteq> ESC"
  then show "read (c # rest) = Some (Inr (\<lparr>char = Some [c], cmd = None\<rparr>, rest))"
    by (simp add: read_def ESC_def Key_init_literal)
next
  assume a: "set ps \<subseteq> set CS_PARAMETER \<and> set qs \<subseteq> set CS_INTERMEDIATE \<and> x \<in> set CS_FINAL
        \<and> ps @ qs @ [x] \<notin> dom SEQ"
  then have "SEQ (ps @ qs @ [x]) = None" by (simp add: domIff)
  with a parse_esc_body [of ps qs x rest]
  show "read (ESC @ CHR ''['' # ps @ qs @ x # rest) = Some (Inr (\<lparr>char = None, cmd = UNKNOWN\<rparr>, rest))"
    by (simp add: read_def ESC_def Key_init_ESC UNKNOWN_def)
qed

text \<open>C4 at concrete inputs: the literal \<open>q\<close>, and the unrecognised body \<open>1;2#Z\<close>.\<close>

theorem decode_examples_witness:
  "read (CHR ''q'' # ''rs'') = Some (Inr (\<lparr>char = Some ''q'', cmd = None\<rparr>, ''rs''))
   \<and> read (ESC @ CHR ''['' # ''1;2'' @ ''#'' @ CHR ''Z'' # ''rs'') =
       Some (Inr (\<lparr>char = None, cmd = UNKNOWN\<rparr>, ''rs''))
   \<and> read (ESC @ ''[A'' @ ''rs'') = Some (Inr (\<lparr>char = None, cmd = Some UP\<rparr>, ''rs''))"
  using decode_examples [where c = "CHR ''q''" and rest = "''rs''" and ps = "''1;2''"
      and qs = "''#''" and x = "CHR ''Z''"]
  by (simp add: ESC_def CS_PARAMETER_def CS_INTERMEDIATE_def CS_FINAL_def SEQ_def dom_def)

text \<open>
  C10. The empty string is found in \<open>CS_PARAMETER\<close> at index 0, so on an exhausted stream
  the parameter loop of \<open>esc2str\<close> does not end. Hence on a stream that stops after ESC \<open>[\<close>,
  or after ESC \<open>[\<close> and any number of parameter characters, \<open>esc2str\<close>, the constructor of
  \<open>Key\<close> and \<open>read\<close> neither return nor raise.
\<close>

theorem truncated_csi_diverges:
  assumes "set ps \<subseteq> set CS_PARAMETER"
  shows "0 \<le> str_find CS_PARAMETER [] \<and> param_run buf [] [] = None
       \<and> esc2str (CHR ''['' # ps) = None
       \<and> Key_init (ESC @ CHR ''['' # ps) = None
       \<and> read (ESC @ CHR ''['' # ps) = None"
proof -
  from param_run_truncated [OF assms, of "[]"]
  have e: "esc2str (CHR ''['' # ps) = None"
    by (simp add: esc2str_def read1_Cons split_beta)
  then have "Key_init (ESC @ CHR ''['' # ps) = None"
    by (simp add: ESC_def Key_init_ESC parse_esc_def)
  with e show ?thesis by (simp add: str_find_empty param_run_eof read_def)
qed

text \<open>C10 on the stream that holds ESC \<open>[\<close> and nothing more.\<close>

theorem truncated_csi_diverges_witness:
  "esc2str ''['' = None \<and> read [CHR 0x1B, CHR ''[''] = None"
  using truncated_csi_diverges [of "[]"] by (simp add: ESC_def)

subsection \<open>Auxiliary facts about the editor\<close>

lemma show'_eq:
  "show' erase self =
     self\<lparr>out := out self @ ESC_RESTORE_CURSOR @ pre self @ post self @ replicate erase CHR '' ''
              @ (if length (post self) + erase > 0
                 then ESC @ ''['' @ str_of_nat (length (post self) + erase) @ ''D'' else [])\<rparr>"
  by (simp add: show'_def emit_def Let_def)

lemma show'_fields [simp]:
  "pre (show' erase self) = pre self"
  "post (show' erase self) = post self"
  "maxlen (show' erase self) = maxlen self"
  "fd (show' erase self) = fd self"
  "running (show' erase self) = running self"
  by (simp_all add: show'_eq)

lemma boundaries_le: "i \<in> set (boundaries s) \<Longrightarrow> i \<le> length s"
  by (simp add: boundaries_def del: upt_Suc)

lemma second_last_le:
  assumes "length (boundaries s) > 1"
  shows "second_last (boundaries s) \<le> length s"
proof -
  from assms have "second_last (boundaries s) \<in> set (boundaries s)"
    by (simp add: second_last_def)
  then show ?thesis by (rule boundaries_le)
qed

lemma second_boundary_le:
  assumes "length (boundaries s) > 1"
  shows "boundaries s ! 1 \<le> length s"
proof -
  from assms have "boundaries s ! 1 \<in> set (boundaries s)" by simp
  then show ?thesis by (rule boundaries_le)
qed

lemma key_cmds_printable:
  assumes "32 \<le> (of_char ch :: nat)" "ch \<noteq> CHR 0x7F"
  shows "key_cmds [ch] = None"
proof -
  have "ch \<noteq> c" if "(of_char c :: nat) < 32" for c
    using that assms(1) by auto
  then have "ch \<noteq> CHR 0x0A" "ch \<noteq> CHR 0x09" "ch \<noteq> CHR 0x08" "ch \<noteq> CHR 0x0B" "ch \<noteq> CHR 0x17"
    by simp_all
  with assms(2) show ?thesis by (simp add: key_cmds_def)
qed

subsection \<open>The renderer and the edit operations: claims C3, C5 and C8\<close>

text \<open>
  C8. One call of \<open>show\<close> leaves every attribute as it is and appends to the output, in this
  order: ESC \<open>[u\<close>, \<open>pre\<close>, \<open>post\<close>, \<open>erase\<close> spaces and, exactly when
  \<open>len(post) + erase > 0\<close>, ESC \<open>[\<close>, the decimal digits of \<open>len(post) + erase\<close> and \<open>D\<close>;
  nothing else is written.
\<close>

theorem show_output:
  "show' erase self =
     self\<lparr>out := out self @ [CHR 0x1B, CHR ''['', CHR ''u''] @ pre self @ post self
              @ replicate erase CHR '' ''
              @ (if length (post self) + erase > 0
                 then [CHR 0x1B, CHR ''[''] @ str_of_nat (length (post self) + erase) @ [CHR ''D'']
                 else [])\<rparr>
   \<and> set (str_of_nat (length (post self) + erase)) \<subseteq> set ''0123456789''"
proof -
  have d: "digit k \<in> set ''0123456789''" if "k < 10" for k
    unfolding digit_def by (rule nth_mem) (use that in simp)
  have "set (str_of_nat n) \<subseteq> set ''0123456789''" for n
  proof (induction n rule: str_of_nat.induct)
    case (1 n)
    show ?case
    proof (cases "n < 10")
      case True
      with d [of n] show ?thesis by (subst str_of_nat.simps) simp
    next
      case False
      have "n mod 10 < 10" by simp
      from d [OF this] 1 [OF False] False show ?thesis
        by (subst str_of_nat.simps) simp
    qed
  qed
  then show ?thesis by (simp add: show'_eq ESC_def ESC_RESTORE_CURSOR_def)
qed

text \<open>C8 at two concrete states, one with a cursor-left sequence and one without.\<close>

theorem show_output_witness:
  "out (show' 2 \<lparr>fd = [], maxlen = 10, pre = ''ab'', post = ''cde'', running = True, out = []\<rparr>)
     = [CHR 0x1B, CHR ''['', CHR ''u''] @ ''abcde  '' @ [CHR 0x1B, CHR ''[''] @ ''5'' @ ''D''
   \<and> out (show' 0 \<lparr>fd = [], maxlen = 10, pre = ''ab'', post = [], running = True, out = []\<rparr>)
     = [CHR 0x1B, CHR ''['', CHR ''u''] @ ''ab''"
  using show_output [of 2 "\<lparr>fd = [], maxlen = 10, pre = ''ab'', post = ''cde'', running = True, out = []\<rparr>"]
    show_output [of 0 "\<lparr>fd = [], maxlen = 10, pre = ''ab'', post = [], running = True, out = []\<rparr>"]
  by (simp add: digit_def numeral_2_eq_2)

text \<open>
  C3, as the code has it. \<open>delete\<close> drops the first character of \<open>post\<close> when there is one
  and then calls \<open>show(1)\<close> in either case; \<open>backspace\<close> drops the last character of \<open>pre\<close>
  when there is one and then calls \<open>show(1)\<close> in either case. One erased cell is reported
  to the renderer whether or not a character was removed: one space is written and the
  cursor moves left by \<open>len(post) + 1\<close>.
\<close>

theorem delete_backspace_erase:
  "delete self = show' 1 (self\<lparr>post := tl (post self)\<rparr>)
   \<and> pre (delete self) = pre self \<and> post (delete self) = tl (post self)
   \<and> out (delete self) = out self @ ESC_RESTORE_CURSOR @ pre self @ tl (post self) @ '' ''
        @ ESC @ ''['' @ str_of_nat (length (tl (post self)) + 1) @ ''D''
   \<and> backspace self = show' 1 (self\<lparr>pre := butlast (pre self)\<rparr>)
   \<and> pre (backspace self) = butlast (pre self) \<and> post (backspace self) = post self
   \<and> out (backspace self) = out self @ ESC_RESTORE_CURSOR @ butlast (pre self) @ post self @ '' ''
        @ ESC @ ''['' @ str_of_nat (length (post self) + 1) @ ''D''"
proof -
  have d: "delete self = show' 1 (self\<lparr>post := tl (post self)\<rparr>)"
  proof (cases "post self = []")
    case True
    then have "self\<lparr>post := tl (post self)\<rparr> = self" by (cases self) simp
    then have "show' 1 (self\<lparr>post := tl (post self)\<rparr>) = show' 1 self" by (simp only:)
    with True show ?thesis by (simp add: delete_def)
  next
    case False
    then show ?thesis by (simp add: delete_def)
  qed
  have b: "backspace self = show' 1 (self\<lparr>pre := butlast (pre self)\<rparr>)"
  proof (cases "pre self = []")
    case True
    then have "self\<lparr>pre := butlast (pre self)\<rparr> = self" by (cases self) simp
    then have "show' 1 (self\<lparr>pre := butlast (pre self)\<rparr>) = show' 1 self" by (simp only:)
    with True show ?thesis by (simp add: backspace_def)
  next
    case False
    then show ?thesis by (simp add: backspace_def)
  qed
  show ?thesis
    unfolding d b by (simp add: show'_eq)
qed

text \<open>
  C3 as stated fails: with \<open>post\<close> empty, \<open>delete\<close> renders with one erased cell, not with
  none; the output holds the space and the sequence ESC \<open>[1D\<close>.
\<close>

theorem delete_empty_counterexample:
  "delete \<lparr>fd = [], maxlen = 10, pre = ''ab'', post = [], running = True, out = []\<rparr>
     = show' 1 \<lparr>fd = [], maxlen = 10, pre = ''ab'', post = [], running = True, out = []\<rparr>
   \<and> delete \<lparr>fd = [], maxlen = 10, pre = ''ab'', post = [], running = True, out = []\<rparr>
     \<noteq> show' 0 \<lparr>fd = [], maxlen = 10, pre = ''ab'', post = [], running = True, out = []\<rparr>
   \<and> out (delete \<lparr>fd = [], maxlen = 10, pre = ''ab'', post = [], running = True, out = []\<rparr>)
     = [CHR 0x1B, CHR ''['', CHR ''u''] @ ''ab '' @ [CHR 0x1B, CHR ''[''] @ ''1D''"
  by (simp add: delete_def show'_eq ESC_def ESC_RESTORE_CURSOR_def digit_def)

text \<open>
  C5. With \<open>maxlen \<ge> 0\<close> and \<open>len(pre) + len(post) = maxlen\<close>, \<open>handle_char\<close> returns the
  object unchanged, output included, and the dispatch of a printable character ends without
  an exception and with the object unchanged.
\<close>

theorem insert_at_capacity:
  assumes "0 \<le> maxlen self" "int (length (pre self) + length (post self)) = maxlen self"
  shows "handle_char c self = self
       \<and> (32 \<le> (of_char ch :: nat) \<and> ch \<noteq> CHR 0x7F \<longrightarrow>
            dispatch \<lparr>char = Some [ch], cmd = None\<rparr> self = Inr self)"
proof -
  from assms have h: "handle_char c self = self" for c
    by (simp add: handle_char_def)
  then show ?thesis
    by (simp add: dispatch_def key_cmds_printable ord_def)
qed

text \<open>C5 at a full buffer of capacity three.\<close>

theorem insert_at_capacity_witness:
  "handle_char ''x'' \<lparr>fd = [], maxlen = 3, pre = ''ab'', post = ''c'', running = True, out = []\<rparr>
     = \<lparr>fd = [], maxlen = 3, pre = ''ab'', post = ''c'', running = True, out = []\<rparr>
   \<and> dispatch \<lparr>char = Some ''x'', cmd = None\<rparr>
        \<lparr>fd = [], maxlen = 3, pre = ''ab'', post = ''c'', running = True, out = []\<rparr>
     = Inr \<lparr>fd = [], maxlen = 3, pre = ''ab'', post = ''c'', running = True, out = []\<rparr>"
  using insert_at_capacity [of "\<lparr>fd = [], maxlen = 3, pre = ''ab'', post = ''c'', running = True, out = []\<rparr>"
      "''x''" "CHR ''x''"]
  by simp

subsection \<open>Auxiliary facts about lengths and word boundaries\<close>

lemma boundaries_ab_cd: "boundaries ''ab cd'' = [0, 2, 3, 5]"
  by code_simp

text \<open>No operation other than the insertion makes the line longer or changes \<open>maxlen\<close>.\<close>

lemma left_length:
  "length (pre (left self)) + length (post (left self)) = length (pre self) + length (post self)
   \<and> maxlen (left self) = maxlen self"
  by (cases "pre self = []") (simp_all add: left_def)

lemma right_length:
  "length (pre (right self)) + length (post (right self)) = length (pre self) + length (post self)
   \<and> maxlen (right self) = maxlen self"
  by (cases "post self = []") (simp_all add: right_def)

lemma home_length:
  "length (pre (home self)) + length (post (home self)) = length (pre self) + length (post self)
   \<and> maxlen (home self) = maxlen self"
  by (simp add: home_def)

lemma end'_length:
  "length (pre (end' self)) + length (post (end' self)) = length (pre self) + length (post self)
   \<and> maxlen (end' self) = maxlen self"
  by (simp add: end'_def)

lemma delete_length:
  "length (pre (delete self)) + length (post (delete self)) \<le> length (pre self) + length (post self)
   \<and> maxlen (delete self) = maxlen self"
  by (simp add: delete_def)

lemma backspace_length:
  "length (pre (backspace self)) + length (post (backspace self)) \<le> length (pre self) + length (post self)
   \<and> maxlen (backspace self) = maxlen self"
  by (simp add: backspace_def)

lemma kill_post_length:
  "length (pre (kill_post self)) + length (post (kill_post self)) \<le> length (pre self) + length (post self)
   \<and> maxlen (kill_post self) = maxlen self"
  by (simp add: kill_post_def Let_def)

lemma delete_word_length:
  "length (pre (delete_word self)) + length (post (delete_word self)) \<le> length (pre self) + length (post self)
   \<and> maxlen (delete_word self) = maxlen self"
  by (simp add: delete_word_def Let_def)

lemma word_left_length:
  "length (pre (word_left self)) + length (post (word_left self)) = length (pre self) + length (post self)
   \<and> maxlen (word_left self) = maxlen self"
proof (cases "length (boundaries (pre self)) > 1")
  case True
  from second_last_le [OF this] True show ?thesis
    by (simp add: word_left_def Let_def)
next
  case False
  then show ?thesis by (simp add: word_left_def Let_def)
qed

lemma word_right_length:
  "length (pre (word_right self)) + length (post (word_right self)) = length (pre self) + length (post self)
   \<and> maxlen (word_right self) = maxlen self"
proof (cases "length (boundaries (post self)) > 1")
  case True
  from second_boundary_le [OF this] True show ?thesis
    by (simp add: word_right_def Let_def)
next
  case False
  then show ?thesis by (simp add: word_right_def Let_def)
qed

lemma handle_char_length:
  assumes "0 \<le> maxlen self" "int (length (pre self) + length (post self)) \<le> maxlen self"
  shows "int (length (pre (handle_char [ch] self)) + length (post (handle_char [ch] self)))
           \<le> maxlen (handle_char [ch] self)
         \<and> maxlen (handle_char [ch] self) = maxlen self"
  using assms by (simp add: handle_char_def)

subsection \<open>Capacity and word deletion: claims C6, C7 and C9\<close>

text \<open>
  C6. For \<open>maxlen \<ge> 0\<close> and a state with \<open>len(pre) + len(post) \<le> maxlen\<close>, each of the
  insertion of one character, \<open>left\<close>, \<open>right\<close>, \<open>home\<close>, \<open>end\<close>, \<open>delete\<close>, \<open>backspace\<close>,
  \<open>kill_post\<close>, \<open>delete_word\<close>, \<open>word_left\<close> and \<open>word_right\<close> leaves \<open>maxlen\<close> as it is and
  yields a state that satisfies the bound again.
\<close>

theorem length_bound_preserved:
  assumes "0 \<le> maxlen self" "int (length (pre self) + length (post self)) \<le> maxlen self"
  shows "\<forall>op \<in> {handle_char [ch], left, right, home, end', delete, backspace, kill_post,
                 delete_word, word_left, word_right}.
           maxlen (op self) = maxlen self
         \<and> int (length (pre (op self)) + length (post (op self))) \<le> maxlen (op self)"
proof -
  have keep: "maxlen (op self) = maxlen self
         \<and> int (length (pre (op self)) + length (post (op self))) \<le> maxlen (op self)"
    if "length (pre (op self)) + length (post (op self)) \<le> length (pre self) + length (post self)
        \<and> maxlen (op self) = maxlen self" for op
    using that assms(2) by simp
  have "length (pre (op self)) + length (post (op self)) \<le> length (pre self) + length (post self)
        \<and> maxlen (op self) = maxlen self"
    if "op \<in> {left, right, home, end', delete, backspace, kill_post,
                 delete_word, word_left, word_right}" for op
    using that left_length [of self] right_length [of self] home_length [of self]
      end'_length [of self] delete_length [of self] backspace_length [of self]
      kill_post_length [of self] delete_word_length [of self] word_left_length [of self]
      word_right_length [of self]
    by (elim insertE emptyE) simp_all
  with keep handle_char_length [OF assms, of ch] show ?thesis by blast
qed

text \<open>C6 at a buffer of capacity three that holds two characters.\<close>

theorem length_bound_preserved_witness:
  "int (length (pre (handle_char ''x'' \<lparr>fd = [], maxlen = 3, pre = ''ab'', post = [], running = True, out = []\<rparr>))
      + length (post (handle_char ''x'' \<lparr>fd = [], maxlen = 3, pre = ''ab'', post = [], running = True, out = []\<rparr>)))
     \<le> 3
   \<and> pre (handle_char ''x'' \<lparr>fd = [], maxlen = 3, pre = ''ab'', post = [], running = True, out = []\<rparr>) = ''abx''"
proof -
  let ?s = "\<lparr>fd = [], maxlen = 3, pre = ''ab'', post = [], running = True, out = []\<rparr>"
  have "0 \<le> maxlen ?s" "int (length (pre ?s) + length (post ?s)) \<le> maxlen ?s" by simp_all
  from length_bound_preserved [OF this, of "CHR ''x''"]
  have "maxlen (handle_char ''x'' ?s) = maxlen ?s
     \<and> int (length (pre (handle_char ''x'' ?s)) + length (post (handle_char ''x'' ?s)))
          \<le> maxlen (handle_char ''x'' ?s)"
    by blast
  then show ?thesis by (simp add: handle_char_def)
qed

text \<open>
  C7. When \<open>pre\<close> has at least two word boundaries, \<open>delete_word\<close> removes from \<open>pre\<close> exactly
  the characters from its second-to-last boundary to its end, leaves \<open>post\<close> as it is and
  renders with the number of removed characters as erased cells; with fewer than two
  boundaries it changes nothing. An edit of \<open>"ab cd"\<close> that reads ctrl-W and a newline
  returns \<open>"ab "\<close>.
\<close>

theorem delete_word_back:
  "(length (boundaries (pre self)) \<ge> 2 \<longrightarrow>
      delete_word self =
        show' (length (drop (second_last (boundaries (pre self))) (pre self)))
          (self\<lparr>pre := take (second_last (boundaries (pre self))) (pre self)\<rparr>)
      \<and> pre (delete_word self) @ drop (second_last (boundaries (pre self))) (pre self) = pre self
      \<and> post (delete_word self) = post self)
   \<and> (length (boundaries (pre self)) < 2 \<longrightarrow> delete_word self = self)
   \<and> (fd self = [CHR 0x17, CHR 0x0A] \<longrightarrow> edit self ''ab cd'' [] = Some (Inr ''ab ''))"
proof (intro conjI impI)
  assume "length (boundaries (pre self)) \<ge> 2"
  then show "delete_word self =
        show' (length (drop (second_last (boundaries (pre self))) (pre self)))
          (self\<lparr>pre := take (second_last (boundaries (pre self))) (pre self)\<rparr>)"
    by (simp add: delete_word_def Let_def)
  then show "pre (delete_word self) @ drop (second_last (boundaries (pre self))) (pre self) = pre self"
    by simp
  show "post (delete_word self) = post self"
    by (simp add: delete_word_def Let_def)
next
  assume "length (boundaries (pre self)) < 2"
  then show "delete_word self = self"
    by (simp add: delete_word_def Let_def)
next
  assume inp: "fd self = [CHR 0x17, CHR 0x0A]"
  define s0 where "s0 = edit_begin self ''ab cd'' []"
  have s0: "running s0" "fd s0 = [CHR 0x17, CHR 0x0A]" "pre s0 = ''ab cd''" "post s0 = []"
    by (simp_all add: s0_def edit_begin_def Let_def emit_def inp)
  define s1 where "s1 = delete_word (s0\<lparr>fd := [CHR 0x0A]\<rparr>)"
  have s1: "running s1" "fd s1 = [CHR 0x0A]" "pre s1 = ''ab ''" "post s1 = []"
    by (simp_all add: s1_def delete_word_def Let_def s0 boundaries_ab_cd second_last_def)
  define s2 where "s2 = enter (s1\<lparr>fd := []\<rparr>)"
  have s2: "\<not> running s2" "pre s2 = ''ab ''" "post s2 = []"
    by (simp_all add: s2_def enter_def s1)
  have "edit_loop s2 = Some (Inr s2)"
    by (subst edit_loop.simps) (simp add: s2)
  moreover have "edit_loop s1 = edit_loop s2"
    by (subst edit_loop.simps)
      (simp add: s1 s2_def read_def Key_init_def read1_def ESC_def dispatch_def key_cmds_def)
  moreover have "edit_loop s0 = edit_loop s1"
    by (subst edit_loop.simps)
      (simp add: s0 s1_def read_def Key_init_def read1_def ESC_def dispatch_def key_cmds_def)
  ultimately have "edit_loop s0 = Some (Inr s2)" by simp
  then show "edit self ''ab cd'' [] = Some (Inr ''ab '')"
    by (simp add: edit_def s0_def [symmetric] s2)
qed

text \<open>
  C7 at concrete states: \<open>pre = "ab cd"\<close> (four boundaries), \<open>pre\<close> of two spaces (no
  boundary), and the session on the stream ctrl-W, newline.
\<close>

theorem delete_word_back_witness:
  "delete_word \<lparr>fd = [], maxlen = 10, pre = ''ab cd'', post = ''x'', running = True, out = []\<rparr>
     = show' 2 \<lparr>fd = [], maxlen = 10, pre = ''ab '', post = ''x'', running = True, out = []\<rparr>
   \<and> delete_word \<lparr>fd = [], maxlen = 10, pre = ''  '', post = ''x'', running = True, out = []\<rparr>
     = \<lparr>fd = [], maxlen = 10, pre = ''  '', post = ''x'', running = True, out = []\<rparr>
   \<and> edit (Editor_init [CHR 0x17, CHR 0x0A] None 80) ''ab cd'' [] = Some (Inr ''ab '')"
proof -
  have b: "boundaries ''ab cd'' = [0, 2, 3, 5]" "boundaries ''  '' = []"
    by code_simp+
  from delete_word_back [of "\<lparr>fd = [], maxlen = 10, pre = ''ab cd'', post = ''x'', running = True, out = []\<rparr>"]
    delete_word_back [of "\<lparr>fd = [], maxlen = 10, pre = ''  '', post = ''x'', running = True, out = []\<rparr>"]
    delete_word_back [of "Editor_init [CHR 0x17, CHR 0x0A] None 80"]
  show ?thesis by (simp add: b second_last_def Editor_init_def numeral_2_eq_2)
qed

text \<open>
  C9. \<open>Editor(fd, max=0)\<close> sets \<open>maxlen\<close> to \<open>columns - 1\<close>, as \<open>max=None\<close> does, because
  \<open>max or ...\<close> tests the truthiness of \<open>max\<close>. For a terminal of at least two columns the
  insertion of \<open>c\<close> into the empty buffer then appends \<open>c\<close> to \<open>pre\<close>.
\<close>

theorem zero_max_default:
  "maxlen (Editor_init inp (Some 0) columns) = columns - 1
   \<and> maxlen (Editor_init inp None columns) = columns - 1
   \<and> (2 \<le> columns \<longrightarrow>
        pre (handle_char c (edit_begin (Editor_init inp (Some 0) columns) [] [])) = c
      \<and> post (handle_char c (edit_begin (Editor_init inp (Some 0) columns) [] [])) = []
      \<and> handle_char c (edit_begin (Editor_init inp (Some 0) columns) [] [])
          \<noteq> edit_begin (Editor_init inp (Some 0) columns) [] [])"
proof (intro conjI impI)
  show "maxlen (Editor_init inp (Some 0) columns) = columns - 1"
    "maxlen (Editor_init inp None columns) = columns - 1"
    by (simp_all add: Editor_init_def)
next
  assume c: "2 \<le> columns"
  let ?s = "edit_begin (Editor_init inp (Some 0) columns) [] []"
  have s: "maxlen ?s = columns - 1" "pre ?s = []" "post ?s = []"
    by (simp_all add: edit_begin_def Editor_init_def Let_def emit_def)
  with c have h: "handle_char c ?s = show' 0 (?s\<lparr>pre := c\<rparr>)"
    by (simp add: handle_char_def)
  then show "pre (handle_char c ?s) = c" "post (handle_char c ?s) = []"
    by (simp_all add: s)
  have "out (handle_char c ?s) = out ?s @ ESC_RESTORE_CURSOR @ c"
    unfolding h by (simp add: show'_eq s)
  then show "handle_char c ?s \<noteq> ?s"
    by (auto simp: ESC_RESTORE_CURSOR_def)
qed

text \<open>C9 for a terminal of 80 columns.\<close>

theorem zero_max_default_witness:
  "pre (handle_char ''x'' (edit_begin (Editor_init [] (Some 0) 80) [] [])) = ''x''
   \<and> maxlen (Editor_init [] (Some 0) 80) = 79"
  using zero_max_default [of "[]" 80 "''x''"] by simp

end
